theory Spec2Isabelle
  imports Complex_Main "HOL-Library.Word"
begin

section \<open>JavaScript values\<close>

text \<open>
  The six utilities take plain data and are called with anything a caller passes, so the
  embedding works on a universe of dynamically typed values: \<open>undefined\<close>, \<open>null\<close>,
  booleans, numbers, strings, arrays and plain objects. An object is the list of its own
  properties, each key once, in the order \<open>Object.entries\<close> enumerates them. Functions,
  symbols, accessors and objects whose own properties shadow a member of
  \<open>Object.prototype\<close> are outside the universe.

  A string is the list of its UTF-16 code units, as \<open>charAt\<close>, \<open>slice\<close>, \<open>indexOf\<close> and
  \<open>length\<close> see it. A number is \<open>NaN\<close> or a finite value, kept as an exact rational:
  rounding, overflow, the infinities and the negative zero of IEEE doubles are not
  modelled.
\<close>

type_synonym jschar = "16 word"
type_synonym jsstring = "jschar list"

definition str :: "string \<Rightarrow> jsstring" where
  "str cs = map of_char cs"

datatype jsnum = NaN | Fin rat

datatype jsval =
    JUndefined
  | JNull
  | JBool bool
  | JNum jsnum
  | JStr jsstring
  | JArr "jsval list"
  | JObj "(jsstring \<times> jsval) list"

datatype exn = TypeError

datatype jstype = TUndefined | TObject | TBoolean | TNumber | TString

fun typeof :: "jsval \<Rightarrow> jstype" where
  "typeof JUndefined = TUndefined"
| "typeof JNull = TObject"
| "typeof (JBool b) = TBoolean"
| "typeof (JNum n) = TNumber"
| "typeof (JStr s) = TString"
| "typeof (JArr xs) = TObject"
| "typeof (JObj kvs) = TObject"

fun truthy :: "jsval \<Rightarrow> bool" where
  "truthy JUndefined = False"
| "truthy JNull = False"
| "truthy (JBool b) = b"
| "truthy (JNum NaN) = False"
| "truthy (JNum (Fin r)) = (r \<noteq> 0)"
| "truthy (JStr s) = (s \<noteq> [])"
| "truthy (JArr xs) = True"
| "truthy (JObj kvs) = True"

fun nullish :: "jsval \<Rightarrow> bool" where
  "nullish JUndefined = True"
| "nullish JNull = True"
| "nullish v = False"

text \<open>
  Member access \<open>v.k\<close>, for the data property names the sources read (\<open>purse\<close>, \<open>price\<close>,
  \<open>amount\<close>, \<open>current\<close>, ...; none of them is a member of a built-in prototype). Reading a
  property of \<open>undefined\<close> or \<open>null\<close> throws a TypeError; a primitive or an array has
  no such property and yields \<open>undefined\<close>.
\<close>

fun getProp :: "jsval \<Rightarrow> jsstring \<Rightarrow> exn + jsval" where
  "getProp JUndefined k = Inl TypeError"
| "getProp JNull k = Inl TypeError"
| "getProp (JObj kvs) k = Inr (case map_of kvs k of Some v \<Rightarrow> v | None \<Rightarrow> JUndefined)"
| "getProp v k = Inr JUndefined"

text \<open>The same read where the source has already excluded \<open>undefined\<close> and \<open>null\<close>.\<close>

fun field :: "jsval \<Rightarrow> jsstring \<Rightarrow> jsval" where
  "field (JObj kvs) k = (case map_of kvs k of Some v \<Rightarrow> v | None \<Rightarrow> JUndefined)"
| "field v k = JUndefined"

section \<open>Strings\<close>

text \<open>
  White space is what \<open>trim\<close> strips and the regular expression class \<open>\s\<close> matches:
  the WhiteSpace and LineTerminator code points of ECMAScript.
\<close>

definition isWs :: "jschar \<Rightarrow> bool" where
  "isWs c \<longleftrightarrow>
     c = 0x09 \<or> c = 0x0A \<or> c = 0x0B \<or> c = 0x0C \<or> c = 0x0D \<or> c = 0x20 \<or> c = 0xA0
     \<or> c = 0x1680 \<or> (0x2000 \<le> c \<and> c \<le> 0x200A) \<or> c = 0x2028 \<or> c = 0x2029
     \<or> c = 0x202F \<or> c = 0x205F \<or> c = 0x3000 \<or> c = 0xFEFF"

definition trim :: "jsstring \<Rightarrow> jsstring" where
  "trim s = rev (dropWhile isWs (rev (dropWhile isWs s)))"

text \<open>
  \<open>s.split(/\s+/)\<close>: the pieces between the maximal runs of white space, with an empty
  first or last piece when the string starts or ends with white space, and \<open>[""]\<close> for the
  empty string.
\<close>

function splitWs :: "jsstring \<Rightarrow> jsstring list" where
  "splitWs s =
     (case dropWhile (\<lambda>c. \<not> isWs c) s of
        [] \<Rightarrow> [s]
      | c # rest \<Rightarrow> takeWhile (\<lambda>c. \<not> isWs c) s # splitWs (dropWhile isWs rest))"
  by pat_completeness auto
termination
proof (relation "measure length")
  fix s :: jsstring and c rest
  assume a: "dropWhile (\<lambda>c. \<not> isWs c) s = c # rest"
  have "length (dropWhile isWs rest) \<le> length rest"
    by (rule length_dropWhile_le)
  moreover have "length (c # rest) \<le> length s"
    using length_dropWhile_le [of "\<lambda>c. \<not> isWs c" s] a by simp
  ultimately show "(dropWhile isWs rest, s) \<in> measure length"
    by simp
qed simp

declare splitWs.simps [simp del]

text \<open>\<open>words.join(" ")\<close>.\<close>

fun joinSp :: "jsstring list \<Rightarrow> jsstring" where
  "joinSp [] = []"
| "joinSp [w] = w"
| "joinSp (w # ws) = w @ 0x20 # joinSp ws"

text \<open>
  Case mapping. \<open>toLowerCase\<close> and \<open>toUpperCase\<close> follow the Unicode tables; the model
  carries the part of them that the claims exercise: the ASCII letters, and the sharp s
  (U+00DF), which is its own lower case and whose upper case is the two letters "SS".
  Other code units are left as they are. The two functions are exact on strings of ASCII
  code units and U+00DF; statements that depend on the case of other letters are
  restricted to such strings.
\<close>

definition lowerUnit :: "jschar \<Rightarrow> jschar" where
  "lowerUnit c = (if 0x41 \<le> c \<and> c \<le> 0x5A then c + 0x20 else c)"

definition upperUnit :: "jschar \<Rightarrow> jsstring" where
  "upperUnit c =
     (if 0x61 \<le> c \<and> c \<le> 0x7A then [c - 0x20]
      else if c = 0xDF then [0x53, 0x53]
      else [c])"

definition toLowerCase :: "jsstring \<Rightarrow> jsstring" where
  "toLowerCase s = map lowerUnit s"

definition toUpperCase :: "jsstring \<Rightarrow> jsstring" where
  "toUpperCase s = concat (map upperUnit s)"

definition startsWith :: "jsstring \<Rightarrow> jsstring \<Rightarrow> bool" where
  "startsWith s p \<longleftrightarrow> take (length p) s = p"

text \<open>
  \<open>s.indexOf(p, from)\<close> with \<open>from \<le> s.length\<close>: the least position at or after \<open>from\<close>
  where \<open>p\<close> occurs, \<open>None\<close> for the source's \<open>-1\<close>.
\<close>

fun findFrom :: "jsstring \<Rightarrow> jsstring \<Rightarrow> nat \<Rightarrow> nat option" where
  "findFrom p [] i = (if p = [] then Some i else None)"
| "findFrom p (c # cs) i =
     (if startsWith (c # cs) p then Some i else findFrom p cs (Suc i))"

definition indexOf :: "jsstring \<Rightarrow> jsstring \<Rightarrow> nat \<Rightarrow> nat option" where
  "indexOf s p from = findFrom p (drop from s) from"

definition includesStr :: "jsstring \<Rightarrow> jsstring \<Rightarrow> bool" where
  "includesStr s p \<longleftrightarrow> indexOf s p 0 \<noteq> None"

text \<open>\<open>s.slice(a, b)\<close> and \<open>s.slice(a)\<close> for indices within the string.\<close>

definition slice :: "jsstring \<Rightarrow> nat \<Rightarrow> nat \<Rightarrow> jsstring" where
  "slice s a b = take (b - a) (drop a s)"

definition sliceFrom :: "jsstring \<Rightarrow> nat \<Rightarrow> jsstring" where
  "sliceFrom s a = drop a s"

section \<open>The chat-line parser (\<open>parseWhatsAppMessage\<close>)\<close>

record wa_message =
  wa_date :: jsstring
  wa_time :: jsstring
  wa_sender :: jsstring
  wa_text :: jsstring
  wa_wordCount :: nat
  wa_sentiment :: jsstring

definition laughing :: jsstring where
  "laughing = [0xD83D, 0xDE02]"

definition heart :: jsstring where
  "heart = [0x2764]"

definition isFunny :: "jsstring \<Rightarrow> bool" where
  "isFunny lowerText \<longleftrightarrow>
     includesStr lowerText laughing \<or> includesStr lowerText (str '':)'')
     \<or> includesStr lowerText (str ''haha'')"

definition isLove :: "jsstring \<Rightarrow> bool" where
  "isLove lowerText \<longleftrightarrow>
     includesStr lowerText heart \<or> includesStr lowerText (str ''love'')
     \<or> includesStr lowerText (str ''pyaar'')"

definition sentimentOf :: "jsstring \<Rightarrow> jsstring" where
  "sentimentOf txt =
     (let lowerText = toLowerCase txt in
      if isFunny lowerText then str ''funny''
      else if isLove lowerText then str ''love''
      else str ''neutral'')"

definition parseLine :: "jsstring \<Rightarrow> wa_message option" where
  "parseLine message =
     (case (indexOf message (str '', '') 0, indexOf message (str '' - '') 0) of
        (Some commaIndex, Some dashIndex) \<Rightarrow>
          (case indexOf message (str '': '') dashIndex of
             None \<Rightarrow> None
           | Some colonIndex \<Rightarrow>
               (let txt = trim (sliceFrom message (colonIndex + 2)) in
                Some \<lparr> wa_date = slice message 0 commaIndex,
                       wa_time = slice message (commaIndex + 2) dashIndex,
                       wa_sender = slice message (dashIndex + 3) colonIndex,
                       wa_text = txt,
                       wa_wordCount = length (filter (\<lambda>word. length word > 0) (splitWs txt)),
                       wa_sentiment = sentimentOf txt \<rparr>))
      | _ \<Rightarrow> None)"

definition parseWhatsAppMessage :: "jsval \<Rightarrow> exn + wa_message option" where
  "parseWhatsAppMessage message =
     (case message of JStr m \<Rightarrow> Inr (parseLine m) | _ \<Rightarrow> Inr None)"

section \<open>The title normalizer (\<open>fixBollywoodTitle\<close>)\<close>

definition exceptions :: "jsstring list" where
  "exceptions = map str [''ka'', ''ki'', ''ke'', ''se'', ''aur'', ''ya'', ''the'', ''of'',
     ''in'', ''a'', ''an'']"

definition formatWord :: "nat \<Rightarrow> jsstring \<Rightarrow> jsstring" where
  "formatWord index word =
     (let lowerWord = toLowerCase word in
      if index = 0 \<or> lowerWord \<notin> set exceptions
      then toUpperCase (take 1 lowerWord) @ drop 1 lowerWord
      else lowerWord)"

definition fixTitle :: "jsstring \<Rightarrow> jsstring" where
  "fixTitle title =
     (if trim title = [] then []
      else joinSp (map (\<lambda>(index, word). formatWord index word)
                       (enumerate 0 (splitWs (trim title)))))"

definition fixBollywoodTitle :: "jsval \<Rightarrow> exn + jsstring" where
  "fixBollywoodTitle title =
     (case title of JStr t \<Rightarrow> Inr (fixTitle t) | _ \<Rightarrow> Inr [])"

section \<open>Numbers\<close>

text \<open>Comparisons with \<open>NaN\<close> are false; arithmetic on \<open>NaN\<close> gives \<open>NaN\<close>.\<close>

fun numLt :: "jsnum \<Rightarrow> jsnum \<Rightarrow> bool" where
  "numLt (Fin a) (Fin b) = (a < b)"
| "numLt a b = False"

fun numLe :: "jsnum \<Rightarrow> jsnum \<Rightarrow> bool" where
  "numLe (Fin a) (Fin b) = (a \<le> b)"
| "numLe a b = False"

definition numGt :: "jsnum \<Rightarrow> jsnum \<Rightarrow> bool" where
  "numGt a b = numLt b a"

definition numGe :: "jsnum \<Rightarrow> jsnum \<Rightarrow> bool" where
  "numGe a b = numLe b a"

fun numAdd :: "jsnum \<Rightarrow> jsnum \<Rightarrow> jsnum" where
  "numAdd (Fin a) (Fin b) = Fin (a + b)"
| "numAdd a b = NaN"

fun numSub :: "jsnum \<Rightarrow> jsnum \<Rightarrow> jsnum" where
  "numSub (Fin a) (Fin b) = Fin (a - b)"
| "numSub a b = NaN"

text \<open>Division by the length of a non-empty list.\<close>

fun numDivNat :: "jsnum \<Rightarrow> nat \<Rightarrow> jsnum" where
  "numDivNat (Fin a) n = Fin (a / of_nat n)"
| "numDivNat NaN n = NaN"

text \<open>\<open>Math.round\<close>: the nearest integer, a half rounded up.\<close>

fun mathRound :: "jsnum \<Rightarrow> jsnum" where
  "mathRound (Fin a) = Fin (of_int \<lfloor>a + 1 / 2\<rfloor>)"
| "mathRound NaN = NaN"

text \<open>The number held by a value that the source has checked to be a number.\<close>

fun numOf :: "jsval \<Rightarrow> jsnum" where
  "numOf (JNum n) = n"
| "numOf v = NaN"

section \<open>Exceptions in callbacks\<close>

text \<open>
  \<open>map\<close> and \<open>filter\<close> with a callback that may throw: the first exception ends the
  traversal and leaves the function.
\<close>

fun mapE :: "('a \<Rightarrow> exn + 'b) \<Rightarrow> 'a list \<Rightarrow> exn + 'b list" where
  "mapE f [] = Inr []"
| "mapE f (x # xs) =
     (case f x of
        Inl e \<Rightarrow> Inl e
      | Inr y \<Rightarrow> (case mapE f xs of Inl e \<Rightarrow> Inl e | Inr ys \<Rightarrow> Inr (y # ys)))"

fun filterE :: "('a \<Rightarrow> exn + bool) \<Rightarrow> 'a list \<Rightarrow> exn + 'a list" where
  "filterE f [] = Inr []"
| "filterE f (x # xs) =
     (case f x of
        Inl e \<Rightarrow> Inl e
      | Inr b \<Rightarrow>
          (case filterE f xs of
             Inl e \<Rightarrow> Inl e
           | Inr ys \<Rightarrow> Inr (if b then x # ys else ys)))"

section \<open>Objects built by the code\<close>

text \<open>
  The sources build counting objects with \<open>acc[key] = (acc[key] || 0) + n\<close>, starting from
  \<open>{}\<close>. The own properties of an object are enumerated with the array indices first, in
  ascending numeric order, and the other string keys after them, in the order of their
  creation. An array index is the canonical decimal numeral of an integer from 0 to
  \<open>2^32 - 2\<close>.
\<close>

definition isDigit :: "jschar \<Rightarrow> bool" where
  "isDigit c \<longleftrightarrow> 0x30 \<le> c \<and> c \<le> 0x39"

definition digitsValue :: "jsstring \<Rightarrow> nat" where
  "digitsValue ds = foldl (\<lambda>n c. 10 * n + (unat c - 48)) 0 ds"

definition isArrayIndex :: "jsstring \<Rightarrow> bool" where
  "isArrayIndex k \<longleftrightarrow>
     k \<noteq> [] \<and> list_all isDigit k \<and> (k = [0x30] \<or> hd k \<noteq> 0x30)
     \<and> length k \<le> 10 \<and> digitsValue k \<le> 4294967294"

fun objInsert :: "jsstring \<Rightarrow> 'v \<Rightarrow> (jsstring \<times> 'v) list \<Rightarrow> (jsstring \<times> 'v) list" where
  "objInsert k v [] = [(k, v)]"
| "objInsert k v ((k', v') # kvs) =
     (if isArrayIndex k \<and> (\<not> isArrayIndex k' \<or> digitsValue k < digitsValue k')
      then (k, v) # (k', v') # kvs
      else (k', v') # objInsert k v kvs)"

definition objSet :: "(jsstring \<times> 'v) list \<Rightarrow> jsstring \<Rightarrow> 'v \<Rightarrow> (jsstring \<times> 'v) list" where
  "objSet kvs k v =
     (if k \<in> fst ` set kvs
      then map (\<lambda>(k', v'). if k' = k then (k', v) else (k', v')) kvs
      else objInsert k v kvs)"

text \<open>\<open>acc[key] || 0\<close> on an object whose values are numbers.\<close>

fun orZero :: "jsnum option \<Rightarrow> jsnum" where
  "orZero None = Fin 0"
| "orZero (Some NaN) = Fin 0"
| "orZero (Some (Fin r)) = Fin r"

definition addTo :: "(jsstring \<times> jsnum) list \<Rightarrow> jsstring \<Rightarrow> jsnum \<Rightarrow> (jsstring \<times> jsnum) list" where
  "addTo acc k n = objSet acc k (numAdd (orZero (map_of acc k)) n)"

text \<open>
  A value used as a key is converted to a string. A string is its own key; the conversion
  of other values is not modelled, and neither are the keys that \<open>{}\<close> inherits from
  \<open>Object.prototype\<close>, for which \<open>acc[key]\<close> reads an inherited member: \<open>propertyKey\<close> is
  \<open>None\<close> for them, and a field computed from such a key is \<open>None\<close> in the result records.
\<close>

definition objectPrototypeNames :: "jsstring list" where
  "objectPrototypeNames = map str [''constructor'', ''hasOwnProperty'', ''isPrototypeOf'',
     ''propertyIsEnumerable'', ''toLocaleString'', ''toString'', ''valueOf'', ''__proto__'',
     ''__defineGetter__'', ''__defineSetter__'', ''__lookupGetter__'', ''__lookupSetter__'']"

fun propertyKey :: "jsval \<Rightarrow> jsstring option" where
  "propertyKey (JStr s) = (if s \<in> set objectPrototypeNames then None else Some s)"
| "propertyKey v = None"

fun those_keys :: "jsval list \<Rightarrow> jsstring list option" where
  "those_keys [] = Some []"
| "those_keys (v # vs) =
     (case propertyKey v of
        None \<Rightarrow> None
      | Some k \<Rightarrow> (case those_keys vs of None \<Rightarrow> None | Some ks \<Rightarrow> Some (k # ks)))"

section \<open>The auction summary aggregator (\<open>iplAuctionSummary\<close>)\<close>

text \<open>
  The statistics add and compare \<open>player.price\<close> and count by \<open>player.role\<close>. They are
  modelled for player records whose price is a number and whose role is a string key; for
  other records the source still returns a summary object, with fields that come out of
  JavaScript's implicit conversions, and \<open>stats\<close> is \<open>None\<close>.
\<close>

record auction_stats =
  totalSpent :: jsnum
  remaining :: jsnum
  costliestPlayer :: jsval
  cheapestPlayer :: jsval
  averagePrice :: jsnum
  byRole :: "(jsstring \<times> jsnum) list"
  isOverBudget :: bool

record auction_summary =
  teamName :: jsval
  playerCount :: nat
  stats :: "auction_stats option"

definition price :: "jsval \<Rightarrow> jsnum" where
  "price player = numOf (field player (str ''price''))"

definition isPlayer :: "jsval \<Rightarrow> bool" where
  "isPlayer player \<longleftrightarrow>
     typeof (field player (str ''price'')) = TNumber
     \<and> propertyKey (field player (str ''role'')) \<noteq> None"

definition auctionStats :: "jsnum \<Rightarrow> jsval list \<Rightarrow> auction_stats option" where
  "auctionStats purse players =
     (case (players, those_keys (map (\<lambda>player. field player (str ''role'')) players)) of
        (p0 # rest, Some roles) \<Rightarrow>
          if list_all isPlayer players then
            (let total = foldl (\<lambda>sum player. numAdd sum (price player)) (Fin 0) players
             in Some \<lparr> totalSpent = total,
                       remaining = numSub purse total,
                       costliestPlayer =
                         foldl (\<lambda>max p. if numGt (price p) (price max) then p else max) p0 players,
                       cheapestPlayer =
                         foldl (\<lambda>min p. if numLt (price p) (price min) then p else min) p0 players,
                       averagePrice = mathRound (numDivNat total (length players)),
                       byRole = foldl (\<lambda>acc role. addTo acc role (Fin 1)) [] roles,
                       isOverBudget = numGt total purse \<rparr>)
          else None
      | _ \<Rightarrow> None)"

text \<open>
  The guard \<open>!team\<close> keeps \<open>team.purse\<close> from being read on \<open>undefined\<close> or \<open>null\<close>. The
  first \<open>reduce\<close> reads \<open>player.price\<close> on every element of the list, which throws on an
  element that is \<open>undefined\<close> or \<open>null\<close>.
\<close>

definition iplAuctionSummary :: "jsval \<Rightarrow> jsval \<Rightarrow> exn + auction_summary option" where
  "iplAuctionSummary team players =
     (if \<not> truthy team then Inr None
      else case field team (str ''purse'') of
        JNum purse \<Rightarrow>
          if numLe purse (Fin 0) then Inr None
          else (case players of
            JArr ps \<Rightarrow>
              if length ps = 0 then Inr None
              else (case mapE (\<lambda>player. getProp player (str ''price'')) ps of
                Inl e \<Rightarrow> Inl e
              | Inr prices \<Rightarrow>
                  Inr (Some \<lparr> teamName = field team (str ''name''),
                              playerCount = length ps,
                              stats = auctionStats purse ps \<rparr>))
          | _ \<Rightarrow> Inr None)
      | _ \<Rightarrow> Inr None)"

section \<open>The transaction-log analyzer (\<open>analyzeUPITransactions\<close>)\<close>

record upi_totals =
  acc_totalCredit :: jsnum
  acc_totalDebit :: jsnum
  acc_categoryBreakdown :: "(jsstring \<times> jsnum) list option"
  acc_contactFrequency :: "(jsstring \<times> jsnum) list option"
  acc_totalAmountSum :: jsnum

record upi_analysis =
  totalCredit :: jsnum
  totalDebit :: jsnum
  netBalance :: jsnum
  transactionCount :: nat
  avgTransaction :: jsnum
  highestTransaction :: jsval
  categoryBreakdown :: "(jsstring \<times> jsnum) list option"
  frequentContact :: "jsstring option"
  allAbove100 :: bool
  hasLargeTransaction :: bool

definition amount :: "jsval \<Rightarrow> jsnum" where
  "amount txn = numOf (field txn (str ''amount''))"

text \<open>The callback of \<open>filter\<close>: reading \<open>txn.amount\<close> throws on \<open>undefined\<close> and \<open>null\<close>.\<close>

definition txnFilter :: "jsval \<Rightarrow> exn + bool" where
  "txnFilter txn =
     (case getProp txn (str ''amount'') of
        Inl e \<Rightarrow> Inl e
      | Inr a \<Rightarrow>
          Inr (typeof a = TNumber \<and> numGt (numOf a) (Fin 0)
               \<and> (field txn (str ''type'') = JStr (str ''credit'')
                  \<or> field txn (str ''type'') = JStr (str ''debit''))))"

definition initialAnalysis :: upi_totals where
  "initialAnalysis =
     \<lparr> acc_totalCredit = Fin 0, acc_totalDebit = Fin 0, acc_categoryBreakdown = Some [],
       acc_contactFrequency = Some [], acc_totalAmountSum = Fin 0 \<rparr>"

definition addKey :: "(jsstring \<times> jsnum) list option \<Rightarrow> jsval \<Rightarrow> jsnum
    \<Rightarrow> (jsstring \<times> jsnum) list option" where
  "addKey obj key n =
     (case (obj, propertyKey key) of
        (Some kvs, Some k) \<Rightarrow> Some (addTo kvs k n)
      | _ \<Rightarrow> None)"

definition step :: "upi_totals \<Rightarrow> jsval \<Rightarrow> upi_totals" where
  "step acc txn =
     \<lparr> acc_totalCredit =
         (if field txn (str ''type'') = JStr (str ''credit'')
          then numAdd (acc_totalCredit acc) (amount txn) else acc_totalCredit acc),
       acc_totalDebit =
         (if field txn (str ''type'') = JStr (str ''debit'')
          then numAdd (acc_totalDebit acc) (amount txn) else acc_totalDebit acc),
       acc_categoryBreakdown =
         addKey (acc_categoryBreakdown acc) (field txn (str ''category'')) (amount txn),
       acc_contactFrequency =
         addKey (acc_contactFrequency acc) (field txn (str ''to'')) (Fin 1),
       acc_totalAmountSum = numAdd (acc_totalAmountSum acc) (amount txn) \<rparr>"

text \<open>
  The loop over \<open>Object.entries(totals.contactFrequency)\<close>, with the pair
  \<open>(frequentContact, maxCount)\<close> as its state.
\<close>

definition frequentLoop :: "(jsstring \<times> jsnum) list \<Rightarrow> jsstring \<times> jsnum" where
  "frequentLoop entries =
     foldl (\<lambda>(frequent, maxCount) (name, count).
              if numGt count maxCount then (name, count) else (frequent, maxCount))
           ([], Fin 0) entries"

text \<open>
  \<open>Array.prototype.sort\<close> with a comparator is stable: \<open>a\<close> stays before a later \<open>b\<close>
  unless the comparator returns a positive number for \<open>(a, b)\<close>.
\<close>

fun insertBy :: "('a \<Rightarrow> 'a \<Rightarrow> jsnum) \<Rightarrow> 'a \<Rightarrow> 'a list \<Rightarrow> 'a list" where
  "insertBy cmp x [] = [x]"
| "insertBy cmp x (y # ys) =
     (if numGt (cmp x y) (Fin 0) then y # insertBy cmp x ys else x # y # ys)"

definition sortBy :: "('a \<Rightarrow> 'a \<Rightarrow> jsnum) \<Rightarrow> 'a list \<Rightarrow> 'a list" where
  "sortBy cmp xs = foldr (insertBy cmp) xs []"

definition first :: "jsval list \<Rightarrow> jsval" where
  "first xs = (case xs of [] \<Rightarrow> JUndefined | x # rest \<Rightarrow> x)"

definition analyze :: "jsval list \<Rightarrow> upi_analysis" where
  "analyze validTxns =
     (let totals = foldl step initialAnalysis validTxns in
      \<lparr> totalCredit = acc_totalCredit totals,
        totalDebit = acc_totalDebit totals,
        netBalance = numSub (acc_totalCredit totals) (acc_totalDebit totals),
        transactionCount = length validTxns,
        avgTransaction = mathRound (numDivNat (acc_totalAmountSum totals) (length validTxns)),
        highestTransaction = first (sortBy (\<lambda>a b. numSub (amount b) (amount a)) validTxns),
        categoryBreakdown = acc_categoryBreakdown totals,
        frequentContact = map_option (\<lambda>freq. fst (frequentLoop freq)) (acc_contactFrequency totals),
        allAbove100 = list_all (\<lambda>txn. numGt (amount txn) (Fin 100)) validTxns,
        hasLargeTransaction = list_ex (\<lambda>txn. numGe (amount txn) (Fin 5000)) validTxns \<rparr>)"

definition analyzeUPITransactions :: "jsval \<Rightarrow> exn + upi_analysis option" where
  "analyzeUPITransactions transactions =
     (case transactions of
        JArr txns \<Rightarrow>
          if length txns = 0 then Inr None
          else (case filterE txnFilter txns of
            Inl e \<Rightarrow> Inl e
          | Inr validTxns \<Rightarrow>
              if length validTxns = 0 then Inr None else Inr (Some (analyze validTxns)))
      | _ \<Rightarrow> Inr None)"

section \<open>The report-card calculator (\<open>generateReportCard\<close>)\<close>










section \<open>The PNR status formatter (\<open>processRailwayPNR\<close>)\<close>

text \<open>
  \<open>isNaN(pnr)\<close> on a string converts it to a number first. The conversion gives \<open>NaN\<close>
  unless the string, with white space stripped at both ends, is empty or matches the
  grammar of numeric string literals: a signed decimal literal with an optional fraction
  and exponent, \<open>Infinity\<close>, or an unsigned binary, octal or hexadecimal integer.
\<close>

definition digits1 :: "(jschar \<Rightarrow> bool) \<Rightarrow> jsstring \<Rightarrow> bool" where
  "digits1 P s \<longleftrightarrow> s \<noteq> [] \<and> list_all P s"

definition isHexDigit :: "jschar \<Rightarrow> bool" where
  "isHexDigit c \<longleftrightarrow> isDigit c \<or> (0x41 \<le> c \<and> c \<le> 0x46) \<or> (0x61 \<le> c \<and> c \<le> 0x66)"

definition isOctalDigit :: "jschar \<Rightarrow> bool" where
  "isOctalDigit c \<longleftrightarrow> 0x30 \<le> c \<and> c \<le> 0x37"

definition isBinaryDigit :: "jschar \<Rightarrow> bool" where
  "isBinaryDigit c \<longleftrightarrow> c = 0x30 \<or> c = 0x31"

definition isSign :: "jschar \<Rightarrow> bool" where
  "isSign c \<longleftrightarrow> c = 0x2B \<or> c = 0x2D"

definition isSignedInteger :: "jsstring \<Rightarrow> bool" where
  "isSignedInteger s \<longleftrightarrow>
     (case s of [] \<Rightarrow> False
      | c # r \<Rightarrow> if isSign c then digits1 isDigit r else digits1 isDigit s)"

definition isExponentPartOpt :: "jsstring \<Rightarrow> bool" where
  "isExponentPartOpt s \<longleftrightarrow>
     (case s of [] \<Rightarrow> True | c # r \<Rightarrow> (c = 0x65 \<or> c = 0x45) \<and> isSignedInteger r)"

definition isStrUnsignedDecimalLiteral :: "jsstring \<Rightarrow> bool" where
  "isStrUnsignedDecimalLiteral s \<longleftrightarrow>
     s = str ''Infinity'' \<or>
     (let intPart = takeWhile isDigit s; rest = dropWhile isDigit s in
      case rest of
        [] \<Rightarrow> intPart \<noteq> []
      | c # r \<Rightarrow>
          if c = 0x2E
          then (intPart \<noteq> [] \<or> takeWhile isDigit r \<noteq> [])
               \<and> isExponentPartOpt (dropWhile isDigit r)
          else intPart \<noteq> [] \<and> isExponentPartOpt rest)"

definition isNonDecimalIntegerLiteral :: "jsstring \<Rightarrow> bool" where
  "isNonDecimalIntegerLiteral s \<longleftrightarrow>
     (case s of
        z # x # ds \<Rightarrow>
          z = 0x30 \<and>
          ((x = 0x78 \<or> x = 0x58) \<and> digits1 isHexDigit ds
           \<or> (x = 0x6F \<or> x = 0x4F) \<and> digits1 isOctalDigit ds
           \<or> (x = 0x62 \<or> x = 0x42) \<and> digits1 isBinaryDigit ds)
      | _ \<Rightarrow> False)"

definition isStrNumericLiteral :: "jsstring \<Rightarrow> bool" where
  "isStrNumericLiteral s \<longleftrightarrow>
     isNonDecimalIntegerLiteral s \<or>
     (case s of [] \<Rightarrow> False
      | c # r \<Rightarrow>
          if isSign c then isStrUnsignedDecimalLiteral r else isStrUnsignedDecimalLiteral s)"

definition isNaNStr :: "jsstring \<Rightarrow> bool" where
  "isNaNStr s \<longleftrightarrow> trim s \<noteq> [] \<and> \<not> isStrNumericLiteral (trim s)"

text \<open>
  The result keeps the fields that the code computes from the status of the passengers.
  \<open>trainInfo\<close> and \<open>formattedName\<close> are renderings of caller data through string
  conversion and are left out, but for the one step of their evaluation that can fail:
  \<open>p.name.padEnd(20)\<close> needs \<open>p.name\<close> to be a string.
\<close>

record passenger_status =
  bookingStatus :: jsval
  currentStatus :: jsval
  statusLabel :: jsstring
  isConfirmed :: bool

record pnr_counts =
  totalPassengers :: nat
  confirmed :: nat
  waiting :: nat
  cancelled :: nat
  rac :: nat

record pnr_summary = pnr_counts +
  allConfirmed :: bool
  anyWaiting :: bool

record pnr_status =
  pnrFormatted :: jsstring
  passengers :: "passenger_status list"
  summary :: pnr_summary
  chartPrepared :: bool

text \<open>\<open>p.current?.toUpperCase() ?? ""\<close>.\<close>

definition currentUpper :: "jsval \<Rightarrow> exn + jsstring" where
  "currentUpper p =
     (case getProp p (str ''current'') of
        Inl e \<Rightarrow> Inl e
      | Inr JUndefined \<Rightarrow> Inr []
      | Inr JNull \<Rightarrow> Inr []
      | Inr (JStr s) \<Rightarrow> Inr (toUpperCase s)
      | Inr v \<Rightarrow> Inl TypeError)"

definition labelOf :: "jsstring \<Rightarrow> jsstring" where
  "labelOf current =
     (if current = str ''CAN'' then str ''CANCELLED''
      else if startsWith current (str ''RAC'') then str ''RAC''
      else if startsWith current (str ''WL'') then str ''WAITING''
      else if startsWith current (str ''B'') \<or> startsWith current (str ''S'')
              \<or> startsWith current (str ''A'') \<or> startsWith current (str ''M'')
      then str ''CONFIRMED''
      else str ''CONFIRMED'')"

definition processPassenger :: "jsval \<Rightarrow> exn + passenger_status" where
  "processPassenger p =
     (case currentUpper p of
        Inl e \<Rightarrow> Inl e
      | Inr current \<Rightarrow>
          (case field p (str ''name'') of
             JStr nm \<Rightarrow>
               Inr \<lparr> bookingStatus = field p (str ''booking''),
                     currentStatus = field p (str ''current''),
                     statusLabel = labelOf current,
                     isConfirmed = (labelOf current = str ''CONFIRMED'') \<rparr>
           | _ \<Rightarrow> Inl TypeError))"

definition tally :: "pnr_counts \<Rightarrow> passenger_status \<Rightarrow> pnr_counts" where
  "tally acc p =
     (let acc = acc\<lparr>totalPassengers := totalPassengers acc + 1\<rparr> in
      if statusLabel p = str ''CONFIRMED'' then acc\<lparr>confirmed := confirmed acc + 1\<rparr>
      else if statusLabel p = str ''WAITING'' then acc\<lparr>waiting := waiting acc + 1\<rparr>
      else if statusLabel p = str ''CANCELLED'' then acc\<lparr>cancelled := cancelled acc + 1\<rparr>
      else if statusLabel p = str ''RAC'' then acc\<lparr>rac := rac acc + 1\<rparr>
      else acc)"

definition pnrStatus :: "jsstring \<Rightarrow> passenger_status list \<Rightarrow> pnr_status" where
  "pnrStatus pnr processedPassengers =
     (let counts = foldl tally
            \<lparr>totalPassengers = 0, confirmed = 0, waiting = 0, cancelled = 0, rac = 0\<rparr>
            processedPassengers
      in \<lparr> pnrFormatted =
             slice pnr 0 3 @ str ''-'' @ slice pnr 3 6 @ str ''-'' @ sliceFrom pnr 6,
           passengers = processedPassengers,
           summary =
             \<lparr> totalPassengers = totalPassengers counts, confirmed = confirmed counts,
               waiting = waiting counts, cancelled = cancelled counts, rac = rac counts,
               allConfirmed = list_all isConfirmed processedPassengers,
               anyWaiting = list_ex (\<lambda>p. statusLabel p = str ''WAITING'') processedPassengers \<rparr>,
           chartPrepared =
             list_all isConfirmed
               (filter (\<lambda>p. statusLabel p \<noteq> str ''CANCELLED'') processedPassengers) \<rparr>)"

definition processRailwayPNR :: "jsval \<Rightarrow> exn + pnr_status option" where
  "processRailwayPNR pnrData =
     (if \<not> truthy pnrData \<or> typeof pnrData \<noteq> TObject then Inr None
      else case field pnrData (str ''pnr'') of
        JStr pnr \<Rightarrow>
          if length pnr \<noteq> 10 \<or> isNaNStr pnr then Inr None
          else if \<not> truthy (field pnrData (str ''train''))
                  \<or> typeof (field pnrData (str ''train'')) \<noteq> TObject then Inr None
          else (case field pnrData (str ''passengers'') of
            JArr rawPassengers \<Rightarrow>
              if length rawPassengers = 0 then Inr None
              else (case mapE processPassenger rawPassengers of
                Inl e \<Rightarrow> Inl e
              | Inr processedPassengers \<Rightarrow> Inr (Some (pnrStatus pnr processedPassengers)))
          | _ \<Rightarrow> Inr None)
      | _ \<Rightarrow> Inr None)"

section \<open>Notions of the specification\<close>

text \<open>
  The definitions above are the code. The claims speak of a marker that occurs in a
  message, of the elements of a list, of valid records; these are the predicates the
  theorems are stated with.
\<close>

text \<open>A marker occurs in a message: the message has it as a contiguous part.\<close>

definition occursIn :: "jsstring \<Rightarrow> jsstring \<Rightarrow> bool" where
  "occursIn p s \<longleftrightarrow> (\<exists>before after. s = before @ p @ after)"

text \<open>The elements of a value, when it is an array.\<close>

definition elems :: "jsval \<Rightarrow> jsval list" where
  "elems v = (case v of JArr xs \<Rightarrow> xs | _ \<Rightarrow> [])"



definition pnrChecks :: "jsval \<Rightarrow> bool" where
  "pnrChecks pnrData \<longleftrightarrow>
     truthy pnrData \<and> typeof pnrData = TObject
     \<and> (case field pnrData (str ''pnr'') of
          JStr pnr \<Rightarrow> length pnr = 10 \<and> \<not> isNaNStr pnr | _ \<Rightarrow> False)
     \<and> truthy (field pnrData (str ''train''))
     \<and> typeof (field pnrData (str ''train'')) = TObject
     \<and> elems (field pnrData (str ''passengers'')) \<noteq> []"



text \<open>
  A string of ASCII code units, on which the case mappings of the model are those of
  JavaScript; and a word as \<open>split(/\s+/)\<close> yields it from a trimmed string: not empty,
  no white space.
\<close>

definition ascii :: "jsstring \<Rightarrow> bool" where
  "ascii s \<longleftrightarrow> (\<forall>c\<in>set s. c < 0x80)"

definition wordLike :: "jsstring \<Rightarrow> bool" where
  "wordLike w \<longleftrightarrow> w \<noteq> [] \<and> (\<forall>c\<in>set w. \<not> isWs c)"

text \<open>
  A valid transaction record has a positive number as its amount and the type "credit" or
  "debit"; \<open>amountOf\<close> is that amount. A transaction list is a list of records: none of
  its elements is \<open>undefined\<close> or \<open>null\<close>.
\<close>

definition validRecord :: "jsval \<Rightarrow> bool" where
  "validRecord txn \<longleftrightarrow>
     (case field txn (str ''amount'') of JNum (Fin a) \<Rightarrow> 0 < a | _ \<Rightarrow> False)
     \<and> (field txn (str ''type'') = JStr (str ''credit'')
        \<or> field txn (str ''type'') = JStr (str ''debit''))"

definition amountOf :: "jsval \<Rightarrow> rat" where
  "amountOf txn = (case amount txn of Fin a \<Rightarrow> a | NaN \<Rightarrow> 0)"


text \<open>
  The contact names of a list of records, when they are strings that are their own keys,
  and the step of the reduction that counts one of them.
\<close>

definition contactNames :: "jsval list \<Rightarrow> jsstring list option" where
  "contactNames txns = those_keys (map (\<lambda>txn. field txn (str ''to'')) txns)"

definition bump :: "(jsstring \<times> jsnum) list \<Rightarrow> jsstring \<Rightarrow> (jsstring \<times> jsnum) list" where
  "bump acc k = addTo acc k (Fin 1)"

text \<open>A team and a player list pass the validation of \<open>iplAuctionSummary\<close>.\<close>

definition auctionChecks :: "jsval \<Rightarrow> jsval \<Rightarrow> bool" where
  "auctionChecks team players \<longleftrightarrow>
     truthy team
     \<and> (case field team (str ''purse'') of JNum purse \<Rightarrow> \<not> numLe purse (Fin 0) | _ \<Rightarrow> False)
     \<and> elems players \<noteq> []"


text \<open>Sample inputs, in the shape of the examples in the sources.\<close>

definition passenger :: "jsstring \<Rightarrow> jsval \<Rightarrow> jsval" where
  "passenger nm cur =
     JObj [(str ''name'', JStr nm), (str ''age'', JNum (Fin 28)), (str ''gender'', JStr (str ''M'')),
           (str ''booking'', JStr (str ''WL5'')), (str ''current'', cur)]"

definition pnrRecord :: "jsstring \<Rightarrow> jsval list \<Rightarrow> jsval" where
  "pnrRecord pnr ps =
     JObj [(str ''pnr'', JStr pnr),
           (str ''train'', JObj [(str ''number'', JStr (str ''12301'')),
                                 (str ''name'', JStr (str ''Rajdhani Express'')),
                                 (str ''from'', JStr (str ''NDLS'')), (str ''to'', JStr (str ''HWH''))]),
           (str ''classBooked'', JStr (str ''3A'')),
           (str ''passengers'', JArr ps)]"

definition transaction :: "string \<Rightarrow> jsval \<Rightarrow> string \<Rightarrow> string \<Rightarrow> jsval" where
  "transaction ty amt to cat =
     JObj [(str ''type'', JStr (str ty)), (str ''amount'', amt), (str ''to'', JStr (str to)),
           (str ''category'', JStr (str cat))]"

definition teamRecord :: "string \<Rightarrow> jsval \<Rightarrow> jsval" where
  "teamRecord nm purse = JObj [(str ''name'', JStr (str nm)), (str ''purse'', purse)]"

definition player :: "string \<Rightarrow> string \<Rightarrow> jsval \<Rightarrow> jsval" where
  "player nm role pr = JObj [(str ''name'', JStr (str nm)), (str ''role'', JStr (str role)), (str ''price'', pr)]"


section \<open>Strings: searching\<close>

lemma startsWith_iff: "startsWith s p \<longleftrightarrow> (\<exists>after. s = p @ after)"
proof
  assume "startsWith s p"
  then have "s = p @ drop (length p) s"
    by (metis append_take_drop_id startsWith_def)
  then show "\<exists>after. s = p @ after" ..
next
  assume "\<exists>after. s = p @ after"
  then show "startsWith s p" by (auto simp: startsWith_def)
qed

lemma occursIn_Cons:
  "occursIn p (c # cs) \<longleftrightarrow> startsWith (c # cs) p \<or> occursIn p cs"
proof
  assume "occursIn p (c # cs)"
  then obtain b a where e: "c # cs = b @ p @ a" by (auto simp: occursIn_def)
  show "startsWith (c # cs) p \<or> occursIn p cs"
  proof (cases b)
    case Nil
    with e show ?thesis by (auto simp: startsWith_iff)
  next
    case (Cons b0 b')
    with e have "cs = b' @ p @ a" by simp
    then show ?thesis by (auto simp: occursIn_def)
  qed
next
  assume "startsWith (c # cs) p \<or> occursIn p cs"
  then show "occursIn p (c # cs)"
  proof
    assume "startsWith (c # cs) p"
    then obtain a where "c # cs = [] @ p @ a" by (auto simp: startsWith_iff)
    then show ?thesis unfolding occursIn_def by blast
  next
    assume "occursIn p cs"
    then obtain b a where "cs = b @ p @ a" by (auto simp: occursIn_def)
    then have "c # cs = (c # b) @ p @ a" by simp
    then show ?thesis unfolding occursIn_def by blast
  qed
qed

lemma findFrom_None_iff: "findFrom p s i = None \<longleftrightarrow> \<not> occursIn p s"
proof (induction s arbitrary: i)
  case Nil
  show ?case by (auto simp: occursIn_def)
next
  case (Cons c cs)
  then show ?case by (simp add: occursIn_Cons)
qed

lemma includesStr_iff: "includesStr s p \<longleftrightarrow> occursIn p s"
  by (simp add: includesStr_def indexOf_def findFrom_None_iff)

text \<open>The unfolding rules that evaluate string operations on literals.\<close>

lemmas string_ops =
  str_def startsWith_def indexOf_def includesStr_def slice_def sliceFrom_def trim_def isWs_def
  toLowerCase_def toUpperCase_def lowerUnit_def upperUnit_def

section \<open>Properties of the PNR status formatter\<close>

lemma getProp_field: "\<not> nullish v \<Longrightarrow> getProp v k = Inr (field v k)"
  by (cases v) simp_all





lemma processRailwayPNR_checks:
  "processRailwayPNR d =
     (if pnrChecks d
      then (case mapE processPassenger (elems (field d (str ''passengers''))) of
              Inl e \<Rightarrow> Inl e
            | Inr ps \<Rightarrow> (case field d (str ''pnr'') of JStr pnr \<Rightarrow> Inr (Some (pnrStatus pnr ps)) | _ \<Rightarrow> Inr None))
      else Inr None)"
  unfolding processRailwayPNR_def pnrChecks_def elems_def
  by (auto split: jsval.splits sum.splits)







section \<open>Properties of the chat-line parser\<close>

text \<open>
  Claim C9. For every successfully parsed line, with the message text folded to lower
  case: if a funny marker (the laughing emoji, ":)" or "haha") occurs in it the sentiment
  is "funny", also when a love marker occurs as well; otherwise if a love marker (the
  heart, "love" or "pyaar") occurs in it the sentiment is "love"; otherwise it is
  "neutral".
\<close>

theorem sentiment_priority:
  assumes "parseWhatsAppMessage (JStr line) = Inr (Some r)"
  shows "wa_sentiment r =
     (let folded = toLowerCase (wa_text r) in
      if occursIn laughing folded \<or> occursIn (str '':)'') folded \<or> occursIn (str ''haha'') folded
      then str ''funny''
      else if occursIn heart folded \<or> occursIn (str ''love'') folded
              \<or> occursIn (str ''pyaar'') folded
      then str ''love''
      else str ''neutral'')"
proof -
  from assms have "parseLine line = Some r"
    by (simp add: parseWhatsAppMessage_def)
  then have "wa_sentiment r = sentimentOf (wa_text r)"
    by (auto simp: parseLine_def Let_def split: option.splits)
  then show ?thesis
    by (simp add: sentimentOf_def isFunny_def isLove_def includesStr_iff Let_def)
qed

theorem sentiment_priority_witness:
  "parseWhatsAppMessage (JStr (str ''1/1, 2:30 - Ria: Love you HAHA'')) =
     Inr (Some \<lparr> wa_date = str ''1/1'', wa_time = str ''2:30'', wa_sender = str ''Ria'',
                 wa_text = str ''Love you HAHA'', wa_wordCount = 3,
                 wa_sentiment = str ''funny'' \<rparr>)
   \<and> occursIn (str ''love'') (toLowerCase (str ''Love you HAHA''))
   \<and> occursIn (str ''haha'') (toLowerCase (str ''Love you HAHA''))"
proof -
  have h: "parseWhatsAppMessage (JStr (str ''1/1, 2:30 - Ria: Love you HAHA'')) =
     Inr (Some \<lparr> wa_date = str ''1/1'', wa_time = str ''2:30'', wa_sender = str ''Ria'',
                 wa_text = str ''Love you HAHA'', wa_wordCount = 3,
                 wa_sentiment = str ''funny'' \<rparr>)"
    by (simp add: parseWhatsAppMessage_def parseLine_def sentimentOf_def isFunny_def
        isLove_def laughing_def heart_def splitWs.simps string_ops)
  have l: "occursIn (str ''love'') (toLowerCase (str ''Love you HAHA''))"
    and f: "occursIn (str ''haha'') (toLowerCase (str ''Love you HAHA''))"
    unfolding includesStr_iff [symmetric] by (simp_all add: string_ops)
  from sentiment_priority [OF h] h l f show ?thesis
    by simp
qed

section \<open>Properties of the transaction-log analyzer\<close>

text \<open>The analyzer on the sample log, evaluated.\<close>

lemma floor_rat_numeral: "\<lfloor>(numeral a :: rat) / numeral b\<rfloor> = numeral a div numeral b"
  using floor_divide_of_int_eq [of "numeral a" "numeral b", where ?'a = rat] by simp

lemmas object_ops =
  addKey_def addTo_def objSet_def isArrayIndex_def isDigit_def digitsValue_def
  objectPrototypeNames_def

lemmas upi_ops =
  analyzeUPITransactions_def txnFilter_def analyze_def step_def initialAnalysis_def amount_def
  frequentLoop_def sortBy_def first_def numGt_def numGe_def transaction_def




lemma txnFilter_validRecord:
  assumes "\<not> nullish txn"
  shows "txnFilter txn = Inr (validRecord txn)"
proof (cases "field txn (str ''amount'')")
  case (JNum n)
  then show ?thesis
    by (cases n) (simp_all add: txnFilter_def getProp_field [OF assms] validRecord_def numGt_def)
qed (simp_all add: txnFilter_def getProp_field [OF assms] validRecord_def)

lemma filterE_txnFilter:
  "list_all (\<lambda>txn. \<not> nullish txn) txns \<Longrightarrow> filterE txnFilter txns = Inr (filter validRecord txns)"
  by (induction txns) (simp_all add: txnFilter_validRecord)



lemma analyzeUPITransactions_valid:
  assumes "list_all (\<lambda>txn. \<not> nullish txn) txns" and "filter validRecord txns \<noteq> []"
  shows "analyzeUPITransactions (JArr txns) = Inr (Some (analyze (filter validRecord txns)))"
proof -
  from assms(2) have "txns \<noteq> []" by auto
  with assms show ?thesis
    by (simp add: analyzeUPITransactions_def filterE_txnFilter)
qed


lemma amountOf_pos: "validRecord txn \<Longrightarrow> 0 < amountOf txn"
  by (auto simp: validRecord_def amount_def amountOf_def split: jsval.splits jsnum.splits)





lemma first_insertBy:
  "first (insertBy cmp x ys) =
     (case ys of [] \<Rightarrow> x | y # rest \<Rightarrow> if numGt (cmp x y) (Fin 0) then y else x)"
  by (cases ys) (simp_all add: first_def)







text \<open>
  The contact counts. The counting object holds every contact name once, with the number
  of its valid transactions; the loop over its entries keeps the first entry of greatest
  count.
\<close>

lemma those_keys_snoc:
  "those_keys (vs @ [v]) =
     (case (those_keys vs, propertyKey v) of (Some ks, Some k) \<Rightarrow> Some (ks @ [k]) | _ \<Rightarrow> None)"
  by (induction vs) (auto split: option.splits)

lemma foldl_step_contacts:
  "acc_contactFrequency (foldl step initialAnalysis txns) =
     map_option (foldl bump []) (contactNames txns)"
proof (induction txns rule: rev_induct)
  case Nil
  show ?case by (simp add: initialAnalysis_def contactNames_def)
next
  case (snoc t ts)
  then show ?case
    by (simp add: contactNames_def those_keys_snoc step_def addKey_def bump_def
        split: option.splits)
qed

lemma map_fst_objInsert_nonindex:
  "\<not> isArrayIndex k \<Longrightarrow> objInsert k v kvs = kvs @ [(k, v)]"
  by (induction kvs) auto

lemma set_objInsert: "set (objInsert k v kvs) = insert (k, v) (set kvs)"
  by (induction kvs) (auto split: if_splits)

lemma objInsert_split:
  "\<exists>pre post. kvs = pre @ post \<and> objInsert k v kvs = pre @ (k, v) # post"
proof (induction kvs)
  case Nil
  show ?case by simp
next
  case (Cons p kvs)
  obtain k' v' where p: "p = (k', v')" by (cases p)
  show ?case
  proof (cases "isArrayIndex k \<and> (\<not> isArrayIndex k' \<or> digitsValue k < digitsValue k')")
    case True
    then have "objInsert k v (p # kvs) = [] @ (k, v) # p # kvs" by (simp add: p)
    moreover have "p # kvs = [] @ p # kvs" by simp
    ultimately show ?thesis by blast
  next
    case False
    from Cons obtain pre post where "kvs = pre @ post" "objInsert k v kvs = pre @ (k, v) # post"
      by blast
    moreover from False have "objInsert k v (p # kvs) = p # objInsert k v kvs"
      by (auto simp: p)
    ultimately have "p # kvs = (p # pre) @ post"
      "objInsert k v (p # kvs) = (p # pre) @ (k, v) # post"
      by simp_all
    then show ?thesis by blast
  qed
qed

lemma map_of_objInsert:
  "k \<notin> fst ` set kvs \<Longrightarrow>
   map_of (objInsert k v kvs) x = (if x = k then Some v else map_of kvs x)"
  by (induction kvs) auto

lemma map_of_replace:
  "map_of (map (\<lambda>(k', v'). if k' = k then (k', v) else (k', v')) kvs) x =
     (if x = k then map_option (\<lambda>old. v) (map_of kvs k) else map_of kvs x)"
  by (induction kvs) auto

lemma map_of_objSet: "map_of (objSet kvs k v) x = (if x = k then Some v else map_of kvs x)"
proof (cases "k \<in> fst ` set kvs")
  case True
  then obtain old where "map_of kvs k = Some old"
    by (metis map_of_eq_None_iff not_Some_eq)
  with True show ?thesis by (simp add: objSet_def map_of_replace)
next
  case False
  then show ?thesis by (simp add: objSet_def map_of_objInsert)
qed

lemma keys_objSet_old:
  "k \<in> fst ` set kvs \<Longrightarrow> map fst (objSet kvs k v) = map fst kvs"
  by (simp add: objSet_def) (induction kvs, auto)

lemma keys_objSet_new:
  assumes "k \<notin> fst ` set kvs"
  shows "\<exists>pre post. map fst kvs = pre @ post \<and> map fst (objSet kvs k v) = pre @ k # post
     \<and> (\<not> isArrayIndex k \<longrightarrow> post = [])"
proof (cases "isArrayIndex k")
  case True
  from objInsert_split [of kvs k v] obtain pre post
    where "kvs = pre @ post" "objInsert k v kvs = pre @ (k, v) # post" by blast
  then have "map fst kvs = map fst pre @ map fst post"
    "map fst (objSet kvs k v) = map fst pre @ k # map fst post"
    using assms by (simp_all add: objSet_def)
  with True show ?thesis by blast
next
  case False
  then have "map fst (objSet kvs k v) = map fst kvs @ k # []"
    using assms by (simp add: objSet_def map_fst_objInsert_nonindex)
  moreover have "map fst kvs = map fst kvs @ []" by simp
  ultimately show ?thesis using False by blast
qed

lemma count_list_snoc: "count_list (ks @ [k]) d = count_list ks d + (if d = k then 1 else 0)"
  by (induction ks) auto

lemma count_list_pos_iff: "0 < count_list ks k \<longleftrightarrow> k \<in> set ks"
  by (induction ks) auto

text \<open>The counting object after the names \<open>ks\<close>: its keys are the names, each once, with
  the number of its occurrences.\<close>

lemma foldl_bump:
  "distinct (map fst (foldl bump [] ks)) \<and> set (map fst (foldl bump [] ks)) = set ks
   \<and> (\<forall>k\<in>set ks. map_of (foldl bump [] ks) k = Some (Fin (of_nat (count_list ks k))))"
proof (induction ks rule: rev_induct)
  case Nil
  show ?case by simp
next
  case (snoc k ks)
  let ?F = "foldl bump [] ks"
  from snoc have d: "distinct (map fst ?F)" and s: "set (map fst ?F) = set ks"
    and c: "\<forall>k\<in>set ks. map_of ?F k = Some (Fin (of_nat (count_list ks k)))"
    by simp_all
  have o: "orZero (map_of ?F k) = Fin (of_nat (count_list ks k))"
  proof (cases "k \<in> set ks")
    case True
    with c show ?thesis by simp
  next
    case False
    with s have "map_of ?F k = None" by (metis map_of_eq_None_iff set_map)
    moreover from False have "count_list ks k = 0"
      using count_list_pos_iff [of ks k] by simp
    ultimately show ?thesis by simp
  qed
  let ?v = "Fin (of_nat (count_list ks k) + 1)"
  have b: "foldl bump [] (ks @ [k]) = objSet ?F k ?v"
    by (simp add: bump_def addTo_def o)
  have m: "\<forall>d\<in>set (ks @ [k]). map_of (objSet ?F k ?v) d
      = Some (Fin (of_nat (count_list (ks @ [k]) d)))"
    using c by (auto simp: map_of_objSet count_list_snoc)
  have "distinct (map fst (objSet ?F k ?v)) \<and> set (map fst (objSet ?F k ?v)) = set (ks @ [k])"
  proof (cases "k \<in> fst ` set ?F")
    case True
    with d s show ?thesis by (auto simp: keys_objSet_old)
  next
    case False
    from keys_objSet_new [OF False, of ?v] obtain pre post
      where pp: "map fst ?F = pre @ post" "map fst (objSet ?F k ?v) = pre @ k # post" by blast
    from False have "k \<notin> set (map fst ?F)" by simp
    with pp(1) have "k \<notin> set pre" "k \<notin> set post" by simp_all
    moreover from d pp(1) have "distinct (pre @ post)" by simp
    moreover from s pp(1) have "set pre \<union> set post = set ks" by simp
    ultimately show ?thesis unfolding pp(2) by auto
  qed
  with m show ?case unfolding b by blast
qed

text \<open>When no name is an array index, the keys are in the order of first appearance.\<close>

lemma foldl_bump_order:
  "\<forall>k\<in>set ks. \<not> isArrayIndex k \<Longrightarrow> map fst (foldl bump [] ks) = rev (remdups (rev ks))"
proof (induction ks rule: rev_induct)
  case Nil
  show ?case by simp
next
  case (snoc k ks)
  let ?F = "foldl bump [] ks"
  let ?v = "numAdd (orZero (map_of ?F k)) (Fin 1)"
  from snoc have ih: "map fst ?F = rev (remdups (rev ks))" and n: "\<not> isArrayIndex k" by simp_all
  from foldl_bump [of ks] have s: "set (map fst ?F) = set ks" by simp
  have b: "bump ?F k = objSet ?F k ?v"
    by (simp add: bump_def addTo_def)
  show ?case
  proof (cases "k \<in> set ks")
    case True
    with s have "k \<in> fst ` set ?F" by simp
    with True ih show ?thesis by (simp add: b keys_objSet_old)
  next
    case False
    with s have "k \<notin> fst ` set ?F" by simp
    from keys_objSet_new [OF this, of ?v] n have "map fst (objSet ?F k ?v) = map fst ?F @ [k]"
      by auto
    with False ih show ?thesis by (simp add: b)
  qed
qed

lemma first_appearance_split:
  "c \<notin> set pre \<Longrightarrow>
   \<exists>rest. rev (remdups (rev (pre @ c # post))) = rev (remdups (rev pre)) @ c # rest"
proof (induction post rule: rev_induct)
  case Nil
  then show ?case by simp
next
  case (snoc y ys)
  then obtain rest where r: "rev (remdups (rev (pre @ c # ys))) = rev (remdups (rev pre)) @ c # rest"
    by blast
  have "rev (remdups (rev (pre @ c # ys @ [y]))) =
      (if y \<in> set (pre @ c # ys) then rev (remdups (rev (pre @ c # ys)))
       else rev (remdups (rev (pre @ c # ys))) @ [y])"
    by simp
  with r show ?case by (cases "y \<in> set (pre @ c # ys)") auto
qed

text \<open>The loop returns the first entry of greatest count.\<close>

lemma frequentLoop_snoc:
  "frequentLoop (es @ [(k, c)]) =
     (if numGt c (snd (frequentLoop es)) then (k, c) else frequentLoop es)"
  by (simp add: frequentLoop_def split: prod.splits)

lemma frequentLoop_first_max:
  assumes "\<forall>e\<in>set es. \<exists>n. snd e = Fin n \<and> 0 < n"
  shows "(es = [] \<and> frequentLoop es = ([], Fin 0))
     \<or> (\<exists>pre k m post. es = pre @ (k, Fin m) # post \<and> frequentLoop es = (k, Fin m) \<and> 0 < m
          \<and> (\<forall>e\<in>set pre. \<exists>n. snd e = Fin n \<and> n < m)
          \<and> (\<forall>e\<in>set post. \<exists>n. snd e = Fin n \<and> n \<le> m))"
  using assms
proof (induction es rule: rev_induct)
  case Nil
  show ?case by (simp add: frequentLoop_def)
next
  case (snoc x es)
  obtain k' c' where x: "x = (k', c')" by (cases x)
  from snoc.prems x obtain n' where n': "c' = Fin n'" "0 < n'" by auto
  from snoc.prems have p: "\<forall>e\<in>set es. \<exists>n. snd e = Fin n \<and> 0 < n" by simp
  from snoc.IH [OF p] show ?case
  proof
    assume "es = [] \<and> frequentLoop es = ([], Fin 0)"
    then have "es @ [x] = [] @ (k', Fin n') # []" "frequentLoop (es @ [x]) = (k', Fin n')"
      using n' by (simp_all add: x frequentLoop_def numGt_def)
    with n' show ?thesis by (metis empty_iff list.set(1))
  next
    assume "\<exists>pre k m post. es = pre @ (k, Fin m) # post \<and> frequentLoop es = (k, Fin m) \<and> 0 < m
          \<and> (\<forall>e\<in>set pre. \<exists>n. snd e = Fin n \<and> n < m)
          \<and> (\<forall>e\<in>set post. \<exists>n. snd e = Fin n \<and> n \<le> m)"
    then obtain pre k m post where e: "es = pre @ (k, Fin m) # post"
      and f: "frequentLoop es = (k, Fin m)" and m: "0 < m"
      and a: "\<forall>e\<in>set pre. \<exists>n. snd e = Fin n \<and> n < m"
      and b: "\<forall>e\<in>set post. \<exists>n. snd e = Fin n \<and> n \<le> m"
      by blast
    show ?thesis
    proof (cases "m < n'")
      case True
      then have l: "frequentLoop (es @ [x]) = (k', Fin n')"
        by (simp add: x n' frequentLoop_snoc f numGt_def)
      have "\<forall>e\<in>set es. \<exists>n. snd e = Fin n \<and> n < n'"
        using a b True unfolding e by fastforce
      moreover have "es @ [x] = es @ (k', Fin n') # []" by (simp add: x n')
      ultimately show ?thesis using l n'(2)
        by (metis empty_iff list.set(1))
    next
      case False
      then have l: "frequentLoop (es @ [x]) = (k, Fin m)"
        by (simp add: x n' frequentLoop_snoc f numGt_def)
      have "\<forall>e\<in>set (post @ [x]). \<exists>n. snd e = Fin n \<and> n \<le> m"
        using b False by (auto simp: x n')
      moreover have "es @ [x] = pre @ (k, Fin m) # (post @ [x])" by (simp add: e)
      ultimately show ?thesis using l m a by blast
    qed
  qed
qed

lemma distinct_split_unique:
  "distinct (a @ k # b) \<Longrightarrow> a @ k # b = a' @ k # b' \<Longrightarrow> a = a'"
proof (induction a arbitrary: a')
  case Nil
  then show ?case by (cases a') auto
next
  case (Cons x a)
  show ?case
  proof (cases a')
    case Nil
    with Cons.prems show ?thesis by auto
  next
    case (Cons y a'')
    with Cons.prems have "x = y" and e: "a @ k # b = a'' @ k # b'" by simp_all
    from Cons.prems(1) have "distinct (a @ k # b)" by simp
    from Cons.IH [OF this e] \<open>x = y\<close> Cons show ?thesis by simp
  qed
qed

lemma those_keys_length: "those_keys vs = Some ks \<Longrightarrow> length ks = length vs"
  by (induction vs arbitrary: ks) (auto split: option.splits)

lemma frequentLoop_counts:
  assumes "ks \<noteq> []"
  shows "\<exists>c. fst (frequentLoop (foldl bump [] ks)) = c \<and> c \<in> set ks
     \<and> (\<forall>d. count_list ks d \<le> count_list ks c)
     \<and> ((\<forall>k\<in>set ks. \<not> isArrayIndex k) \<longrightarrow>
          (\<exists>pre post. ks = pre @ c # post \<and> c \<notin> set pre
             \<and> (\<forall>d\<in>set pre. count_list ks d < count_list ks c)))"
proof -
  let ?F = "foldl bump [] ks"
  from foldl_bump [of ks] have d: "distinct (map fst ?F)" and s: "set (map fst ?F) = set ks"
    and c: "\<forall>k\<in>set ks. map_of ?F k = Some (Fin (of_nat (count_list ks k)))"
    by simp_all
  have entry: "snd e = Fin (of_nat (count_list ks (fst e))) \<and> fst e \<in> set ks" if "e \<in> set ?F" for e
  proof -
    from that have "(fst e, snd e) \<in> set ?F" by simp
    with d have "map_of ?F (fst e) = Some (snd e)" by (simp add: map_of_eq_Some_iff)
    moreover from that s have "fst e \<in> set ks" by force
    ultimately show ?thesis using c by simp
  qed
  have pos: "\<forall>e\<in>set ?F. \<exists>n. snd e = Fin n \<and> 0 < n"
  proof
    fix e assume e: "e \<in> set ?F"
    from entry [OF e] have "0 < count_list ks (fst e)" by (simp add: count_list_pos_iff)
    with entry [OF e] show "\<exists>n. snd e = Fin n \<and> 0 < n" by simp
  qed
  from assms s have "?F \<noteq> []" by auto
  with frequentLoop_first_max [OF pos] obtain pre k m post
    where F: "?F = pre @ (k, Fin m) # post" and l: "frequentLoop ?F = (k, Fin m)"
      and a: "\<forall>e\<in>set pre. \<exists>n. snd e = Fin n \<and> n < m"
      and b: "\<forall>e\<in>set post. \<exists>n. snd e = Fin n \<and> n \<le> m"
    by blast
  have kin: "(k, Fin m) \<in> set ?F" by (subst F) simp
  from entry [OF kin] have m: "m = of_nat (count_list ks k)" and k: "k \<in> set ks" by simp_all
  have le: "count_list ks x \<le> count_list ks k" for x
  proof (cases "x \<in> set ks")
    case False
    then have "count_list ks x = 0" using count_list_pos_iff [of ks x] by simp
    then show ?thesis by simp
  next
    case True
    with s obtain e where e: "e \<in> set ?F" "fst e = x" by force
    then have "e \<in> set pre \<or> e = (k, Fin m) \<or> e \<in> set post" by (subst (asm) F) auto
    with a b obtain n where "snd e = Fin n" "n \<le> m" by force
    with entry [OF e(1)] e(2) m show ?thesis by simp
  qed
  have tie: "\<exists>p q. ks = p @ k # q \<and> k \<notin> set p \<and> (\<forall>x\<in>set p. count_list ks x < count_list ks k)"
    if n: "\<forall>k\<in>set ks. \<not> isArrayIndex k"
  proof -
    from k obtain p q where pq: "ks = p @ k # q" "k \<notin> set p"
      by (meson split_list_first)
    from first_appearance_split [OF pq(2), of q] obtain rest
      where "rev (remdups (rev ks)) = rev (remdups (rev p)) @ k # rest"
      unfolding pq(1) by blast
    with foldl_bump_order [OF n] have o: "map fst ?F = rev (remdups (rev p)) @ k # rest" by simp
    have "map fst ?F = map fst pre @ k # map fst post" by (subst F) simp
    with o d have "map fst pre = rev (remdups (rev p))"
      by (metis distinct_split_unique)
    then have sp: "set (map fst pre) = set p" by simp
    have "\<forall>x\<in>set p. count_list ks x < count_list ks k"
    proof
      fix x assume "x \<in> set p"
      with sp obtain e where e: "e \<in> set pre" "fst e = x" by force
      then have "e \<in> set ?F" by (subst F) simp
      from entry [OF this] a e m show "count_list ks x < count_list ks k" by force
    qed
    with pq show ?thesis by blast
  qed
  from l k le tie show ?thesis by auto
qed

text \<open>
  What holds of \<open>frequentContact\<close>: it is a contact with the greatest number of valid
  transactions; and when no contact name is an array index, its first transaction comes
  before that of every other contact with as many.
\<close>

lemma frequent_contact_most_frequent:
  assumes "list_all (\<lambda>txn. \<not> nullish txn) txns" and "filter validRecord txns \<noteq> []"
    and "contactNames (filter validRecord txns) = Some ks"
  shows "\<exists>r c. analyzeUPITransactions (JArr txns) = Inr (Some r) \<and> frequentContact r = Some c
     \<and> c \<in> set ks \<and> (\<forall>d. count_list ks d \<le> count_list ks c)
     \<and> ((\<forall>k\<in>set ks. \<not> isArrayIndex k) \<longrightarrow>
          (\<exists>pre post. ks = pre @ c # post \<and> c \<notin> set pre
             \<and> (\<forall>d\<in>set pre. count_list ks d < count_list ks c)))"
proof -
  from assms(3) have "length ks = length (filter validRecord txns)"
    by (simp add: contactNames_def those_keys_length)
  with assms(2) have ne: "ks \<noteq> []" by auto
  have "frequentContact (analyze (filter validRecord txns)) =
      Some (fst (frequentLoop (foldl bump [] ks)))"
    by (simp add: analyze_def Let_def foldl_step_contacts assms(3))
  with frequentLoop_counts [OF ne] show ?thesis
    unfolding analyzeUPITransactions_valid [OF assms(1,2)] by auto
qed

text \<open>
  Claim C3 at two contacts named "2" and "1", one transaction each. The names are array
  indices, so the counting object enumerates "1" before "2" although "2" was counted
  first, and the loop keeps the first entry of the tie: \<open>frequentContact\<close> is "1", the
  contact that appears second in the input.
\<close>

theorem frequent_contact_numeric_names:
  "analyzeUPITransactions
     (JArr [transaction ''debit'' (JNum (Fin 200)) ''2'' ''food'',
            transaction ''debit'' (JNum (Fin 300)) ''1'' ''food'']) =
     Inr (Some \<lparr> totalCredit = Fin 0, totalDebit = Fin 500, netBalance = Fin (- 500),
                 transactionCount = 2, avgTransaction = Fin 250,
                 highestTransaction = transaction ''debit'' (JNum (Fin 300)) ''1'' ''food'',
                 categoryBreakdown = Some [(str ''food'', Fin 500)],
                 frequentContact = Some (str ''1''),
                 allAbove100 = True, hasLargeTransaction = False \<rparr>)"
  by (simp add: upi_ops object_ops str_def floor_rat_numeral)

section \<open>Properties of the title normalizer\<close>

lemma lowerUnit_idem: "lowerUnit (lowerUnit c) = lowerUnit c"
  unfolding lowerUnit_def by (auto simp: word_le_nat_alt unat_word_ariths)

lemma lower_upper_lower:
  "c < 0x80 \<Longrightarrow> map lowerUnit (upperUnit (lowerUnit c)) = [lowerUnit c]"
  unfolding lowerUnit_def upperUnit_def
  by (auto simp: word_le_nat_alt word_less_nat_alt unat_word_ariths unat_sub)

lemma isWs_unat:
  "isWs c \<longleftrightarrow> unat c \<in> {9, 10, 11, 12, 13, 32, 160, 5760, 8232, 8233, 8239, 8287, 12288, 65279}
     \<or> (8192 \<le> unat c \<and> unat c \<le> 8202)"
  unfolding isWs_def by (simp add: word_unat_eq_iff word_le_nat_alt) blast

lemma unat_lowerUnit:
  "unat (lowerUnit c) = (if 65 \<le> unat c \<and> unat c \<le> 90 then unat c + 32 else unat c)"
  unfolding lowerUnit_def by (auto simp: word_le_nat_alt unat_word_ariths)

lemma isWs_lowerUnit: "isWs (lowerUnit c) \<longleftrightarrow> isWs c"
  unfolding isWs_unat unat_lowerUnit by auto

lemma isWs_upperUnit: "\<not> isWs c \<Longrightarrow> u \<in> set (upperUnit c) \<Longrightarrow> \<not> isWs u"
  unfolding upperUnit_def isWs_unat
  by (auto simp: word_le_nat_alt word_less_nat_alt unat_sub split: if_splits)

lemma upperUnit_not_Nil: "upperUnit c \<noteq> []"
  by (simp add: upperUnit_def)

lemma toLowerCase_idem: "toLowerCase (toLowerCase s) = toLowerCase s"
  by (simp add: toLowerCase_def lowerUnit_idem)

lemma toLowerCase_append: "toLowerCase (a @ b) = toLowerCase a @ toLowerCase b"
  by (simp add: toLowerCase_def)

lemma lower_capital:
  assumes "ascii w"
  shows "toLowerCase (toUpperCase (take (Suc 0) (toLowerCase w)) @ drop (Suc 0) (toLowerCase w))
    = toLowerCase w"
proof (cases w)
  case Nil
  then show ?thesis by (simp add: toLowerCase_def toUpperCase_def)
next
  case (Cons c cs)
  with assms have "c < 0x80" by (simp add: ascii_def)
  from lower_upper_lower [OF this] Cons show ?thesis
    by (simp add: toLowerCase_def toUpperCase_def lowerUnit_idem)
qed

lemma formatWord_lower:
  "ascii w \<Longrightarrow> toLowerCase (formatWord i w) = toLowerCase w"
  by (simp add: formatWord_def Let_def lower_capital toLowerCase_idem)

lemma formatWord_idem:
  assumes "ascii w"
  shows "formatWord i (formatWord i w) = formatWord i w"
proof -
  have "formatWord i (formatWord i w) =
      (let lowerWord = toLowerCase w in
       if i = 0 \<or> lowerWord \<notin> set exceptions
       then toUpperCase (take 1 lowerWord) @ drop 1 lowerWord else lowerWord)"
    unfolding formatWord_def [of i "formatWord i w"] formatWord_lower [OF assms] ..
  also have "\<dots> = formatWord i w"
    by (simp only: formatWord_def)
  finally show ?thesis .
qed

lemma wordLike_toLowerCase: "wordLike w \<Longrightarrow> wordLike (toLowerCase w)"
  by (simp add: wordLike_def toLowerCase_def isWs_lowerUnit)

lemma wordLike_formatWord:
  assumes "wordLike w"
  shows "wordLike (formatWord i w)"
proof -
  from wordLike_toLowerCase [OF assms] obtain c cs where l: "toLowerCase w = c # cs"
    and c: "\<not> isWs c" and cs: "\<forall>x\<in>set cs. \<not> isWs x"
    by (cases "toLowerCase w") (auto simp: wordLike_def)
  have "wordLike (upperUnit c @ cs)"
    using c cs upperUnit_not_Nil [of c] isWs_upperUnit [OF c] by (auto simp: wordLike_def)
  moreover have "wordLike (c # cs)"
    using c cs by (simp add: wordLike_def)
  ultimately show ?thesis
    by (simp add: formatWord_def Let_def l toUpperCase_def)
qed

lemma splitWs_wordLike_single:
  assumes "\<forall>c\<in>set w. \<not> isWs c"
  shows "splitWs w = [w]"
proof -
  from assms have "dropWhile (\<lambda>c. \<not> isWs c) w = []"
    by (simp add: dropWhile_eq_Nil_conv)
  then show ?thesis by (subst splitWs.simps) (simp only: list.case)
qed

lemma joinSp_Cons2: "ws \<noteq> [] \<Longrightarrow> joinSp (w # ws) = w @ 0x20 # joinSp ws"
  by (cases ws) simp_all

lemma isWs_space: "isWs 0x20"
  by (simp add: isWs_def)

lemma joinSp_hd:
  "ws \<noteq> [] \<Longrightarrow> list_all wordLike ws \<Longrightarrow> joinSp ws \<noteq> [] \<and> \<not> isWs (hd (joinSp ws))"
proof (induction ws rule: joinSp.induct)
  case (3 w v vs)
  then show ?case by (cases w) (simp_all add: wordLike_def)
qed (auto simp: wordLike_def intro: hd_in_set)

lemma joinSp_last:
  "ws \<noteq> [] \<Longrightarrow> list_all wordLike ws \<Longrightarrow> \<not> isWs (last (joinSp ws))"
proof (induction ws rule: joinSp.induct)
  case (3 w v vs)
  with joinSp_hd [of "v # vs"] show ?case by simp
qed (auto simp: wordLike_def)

lemma splitWs_joinSp:
  "ws \<noteq> [] \<Longrightarrow> list_all wordLike ws \<Longrightarrow> splitWs (joinSp ws) = ws"
proof (induction ws rule: joinSp.induct)
  case 1
  then show ?case by simp
next
  case (2 w)
  then show ?case by (simp add: splitWs_wordLike_single wordLike_def)
next
  case (3 w v vs)
  let ?j = "joinSp (v # vs)"
  from 3(3) have w: "\<forall>c\<in>set w. \<not> isWs c" by (simp add: wordLike_def)
  from 3(3) have r: "list_all wordLike (v # vs)" by simp
  from joinSp_hd [OF _ r] have j: "?j \<noteq> []" and h: "\<not> isWs (hd ?j)" by simp_all
  have d: "dropWhile (\<lambda>c. \<not> isWs c) (w @ 0x20 # ?j) = 0x20 # ?j"
    using w by (simp add: dropWhile_append2 isWs_space)
  have t: "takeWhile (\<lambda>c. \<not> isWs c) (w @ 0x20 # ?j) = w"
    using w by (simp add: takeWhile_append2 isWs_space)
  have k: "dropWhile isWs ?j = ?j"
    using j h by (cases ?j) simp_all
  have "splitWs (joinSp (w # v # vs)) = w # splitWs ?j"
    by (subst splitWs.simps) (simp add: d t k)
  with 3(1) [OF _ r] show ?case by simp
qed

lemma trim_fixed:
  assumes "s \<noteq> []" and "\<not> isWs (hd s)" and "\<not> isWs (last s)"
  shows "trim s = s"
proof -
  from assms have "dropWhile isWs s = s" by (cases s) simp_all
  moreover from assms have "dropWhile isWs (rev s) = rev s"
    by (cases "rev s") (simp_all add: hd_rev)
  ultimately show ?thesis by (simp add: trim_def)
qed

lemma trim_ends:
  assumes "trim s \<noteq> []"
  shows "\<not> isWs (hd (trim s)) \<and> \<not> isWs (last (trim s))"
proof -
  let ?d = "dropWhile isWs s"
  let ?r = "dropWhile isWs (rev ?d)"
  from assms have r: "?r \<noteq> []" by (simp add: trim_def del: dropWhile_eq_Nil_conv)
  then have d: "?d \<noteq> []" by (metis dropWhile.simps(1) rev.simps(1))
  from r have "\<not> isWs (hd ?r)" by (rule hd_dropWhile)
  then have l: "\<not> isWs (last (trim s))" using r by (simp add: trim_def last_rev)
  from d have hd: "\<not> isWs (hd ?d)" by (rule hd_dropWhile)
  have "rev ?d = takeWhile isWs (rev ?d) @ ?r" by simp
  then have "?d = rev ?r @ rev (takeWhile isWs (rev ?d))"
    by (metis rev_append rev_rev_ident)
  with r have "hd ?d = hd (rev ?r)" by (metis hd_append2 rev_is_Nil_conv)
  with hd have "\<not> isWs (hd (trim s))" by (simp add: trim_def)
  with l show ?thesis by simp
qed

lemma set_trim: "set (trim s) \<subseteq> set s"
proof -
  have "set (trim s) \<subseteq> set (dropWhile isWs s)"
    unfolding trim_def by (auto dest: set_dropWhileD)
  also have "\<dots> \<subseteq> set s" by (auto dest: set_dropWhileD)
  finally show ?thesis .
qed

lemma splitWs_pieces:
  "p \<in> set (splitWs s) \<Longrightarrow> set p \<subseteq> set s \<and> (\<forall>c\<in>set p. \<not> isWs c)"
proof (induction s arbitrary: p rule: splitWs.induct)
  case (1 s)
  show ?case
  proof (cases "dropWhile (\<lambda>c. \<not> isWs c) s")
    case Nil
    with 1(2) have "p = s" by (subst (asm) splitWs.simps) simp
    with Nil show ?thesis by (simp add: dropWhile_eq_Nil_conv)
  next
    case (Cons c rest)
    with 1(2) have "p = takeWhile (\<lambda>c. \<not> isWs c) s \<or> p \<in> set (splitWs (dropWhile isWs rest))"
      by (subst (asm) splitWs.simps) simp
    then show ?thesis
    proof
      assume "p = takeWhile (\<lambda>c. \<not> isWs c) s"
      then show ?thesis
        using set_takeWhileD [of _ "\<lambda>c. \<not> isWs c" s] by auto
    next
      assume "p \<in> set (splitWs (dropWhile isWs rest))"
      from 1(1) [OF Cons this] have a: "set p \<subseteq> set (dropWhile isWs rest)"
        and n: "\<forall>c\<in>set p. \<not> isWs c" by simp_all
      have b: "set (dropWhile isWs rest) \<subseteq> set rest"
        by (auto dest: set_dropWhileD)
      have "set rest \<subseteq> set (dropWhile (\<lambda>c. \<not> isWs c) s)" by (simp add: Cons) auto
      also have "\<dots> \<subseteq> set s" by (auto dest: set_dropWhileD)
      finally have "set p \<subseteq> set s" using a b by blast
      with n show ?thesis by simp
    qed
  qed
qed

lemma splitWs_not_Nil: "splitWs s \<noteq> []"
  by (subst splitWs.simps) (simp split: list.splits)

lemma splitWs_nonempty_pieces:
  "s \<noteq> [] \<Longrightarrow> \<not> isWs (hd s) \<Longrightarrow> \<not> isWs (last s) \<Longrightarrow> p \<in> set (splitWs s) \<Longrightarrow> p \<noteq> []"
proof (induction s arbitrary: p rule: splitWs.induct)
  case (1 s)
  show ?case
  proof (cases "dropWhile (\<lambda>c. \<not> isWs c) s")
    case Nil
    with 1(5) have "p = s" by (subst (asm) splitWs.simps) simp
    with 1(2) show ?thesis by simp
  next
    case (Cons c rest)
    with 1(5) have "p = takeWhile (\<lambda>c. \<not> isWs c) s \<or> p \<in> set (splitWs (dropWhile isWs rest))"
      by (subst (asm) splitWs.simps) simp
    then show ?thesis
    proof
      assume "p = takeWhile (\<lambda>c. \<not> isWs c) s"
      with 1(2,3) show ?thesis by (cases s) simp_all
    next
      assume p: "p \<in> set (splitWs (dropWhile isWs rest))"
      have c: "isWs c"
        using hd_dropWhile [of "\<lambda>c. \<not> isWs c" s] Cons by simp
      have "s = takeWhile (\<lambda>c. \<not> isWs c) s @ c # rest"
        using takeWhile_dropWhile_id [of "\<lambda>c. \<not> isWs c" s] Cons by simp
      then have "last s = last (c # rest)"
        by (metis last_appendR list.distinct(1))
      with c 1(4) have rest: "rest \<noteq> []" and lr: "last rest = last s"
        by (auto split: if_splits)
      with 1(4) have "\<not> (\<forall>x\<in>set rest. isWs x)"
        using last_in_set [OF rest] by auto
      then have d: "dropWhile isWs rest \<noteq> []"
        by (simp add: dropWhile_eq_Nil_conv)
      then have h: "\<not> isWs (hd (dropWhile isWs rest))" by (rule hd_dropWhile)
      have "rest = takeWhile isWs rest @ dropWhile isWs rest" by simp
      then have "last rest = last (dropWhile isWs rest)"
        using d by (metis last_appendR)
      with lr 1(4) have l: "\<not> isWs (last (dropWhile isWs rest))" by simp
      from 1(1) [OF Cons d h l p] show ?thesis .
    qed
  qed
qed

lemma map_formatWord_idem:
  "list_all ascii ws \<Longrightarrow>
   map (\<lambda>(index, word). formatWord index word)
     (enumerate n (map (\<lambda>(index, word). formatWord index word) (enumerate n ws)))
   = map (\<lambda>(index, word). formatWord index word) (enumerate n ws)"
  by (induction ws arbitrary: n) (simp_all add: formatWord_idem)

lemma list_all_wordLike_format:
  "list_all wordLike ws \<Longrightarrow>
   list_all wordLike (map (\<lambda>(index, word). formatWord index word) (enumerate n ws))"
  by (induction ws arbitrary: n) (simp_all add: wordLike_formatWord)

lemma fixTitle_idem:
  assumes "ascii title"
  shows "fixTitle (fixTitle title) = fixTitle title"
proof (cases "trim title = []")
  case True
  then show ?thesis by (simp add: fixTitle_def trim_def)
next
  case False
  let ?ws = "splitWs (trim title)"
  let ?out = "map (\<lambda>(index, word). formatWord index word) (enumerate 0 ?ws)"
  from trim_ends [OF False] have e: "\<not> isWs (hd (trim title))" "\<not> isWs (last (trim title))"
    by simp_all
  have wl: "list_all wordLike ?ws"
    unfolding list_all_iff wordLike_def
    using splitWs_pieces [of _ "trim title"] splitWs_nonempty_pieces [OF False e] by blast
  have as: "list_all ascii ?ws"
    unfolding list_all_iff ascii_def
    using splitWs_pieces [of _ "trim title"] set_trim [of title] assms [unfolded ascii_def]
    by blast
  have o: "list_all wordLike ?out" by (rule list_all_wordLike_format [OF wl])
  have n: "?out \<noteq> []" using splitWs_not_Nil [of "trim title"] by (cases ?ws) simp_all
  have f: "fixTitle title = joinSp ?out" using False by (simp add: fixTitle_def)
  from joinSp_hd [OF n o] joinSp_last [OF n o] have t: "trim (joinSp ?out) = joinSp ?out"
    by (intro trim_fixed) simp_all
  from joinSp_hd [OF n o] have ne: "joinSp ?out \<noteq> []" by simp
  have "fixTitle (joinSp ?out) =
      joinSp (map (\<lambda>(index, word). formatWord index word) (enumerate 0 (splitWs (joinSp ?out))))"
    using ne by (simp add: fixTitle_def t)
  also have "\<dots> = joinSp ?out"
    by (simp only: splitWs_joinSp [OF n o] map_formatWord_idem [OF as])
  finally show ?thesis by (simp only: f)
qed

lemmas title_ops =
  fixBollywoodTitle_def fixTitle_def formatWord_def exceptions_def enumerate_eq_zip
  splitWs.simps joinSp.simps

text \<open>
  Claim C7, as the code has it. The title normalizer is idempotent on strings of ASCII
  characters: for every such input, applying the normalizer to its own output returns
  that output unchanged.
\<close>

theorem title_idempotent_ascii:
  assumes "ascii title" and "fixBollywoodTitle (JStr title) = Inr out"
  shows "fixBollywoodTitle (JStr out) = Inr out"
proof -
  from assms(2) have "out = fixTitle title" by (simp add: fixBollywoodTitle_def)
  with fixTitle_idem [OF assms(1)] show ?thesis by (simp add: fixBollywoodTitle_def)
qed

theorem title_idempotent_ascii_witness:
  "ascii (str ''  DILWALE   ka  dulhania '')
   \<and> fixBollywoodTitle (JStr (str ''  DILWALE   ka  dulhania '')) = Inr (str ''Dilwale ka Dulhania'')
   \<and> fixBollywoodTitle (JStr (str ''Dilwale ka Dulhania'')) = Inr (str ''Dilwale ka Dulhania'')"
proof -
  have a: "ascii (str ''  DILWALE   ka  dulhania '')"
    by (simp add: ascii_def str_def)
  have f: "fixBollywoodTitle (JStr (str ''  DILWALE   ka  dulhania '')) =
      Inr (str ''Dilwale ka Dulhania'')"
    by (simp add: title_ops string_ops)
  from title_idempotent_ascii [OF a f] a f show ?thesis by blast
qed

text \<open>
  Claim C7 as written covers every string. The sharp s has the upper case "SS": the
  one-letter title U+00DF becomes "SS", and "SS" becomes "Ss".
\<close>

theorem title_idempotent_counterexample:
  "fixBollywoodTitle (JStr [0xDF]) = Inr [0x53, 0x53]
   \<and> fixBollywoodTitle (JStr [0x53, 0x53]) = Inr [0x53, 0x73]"
  by (simp add: title_ops string_ops)

section \<open>Exceptions and sentinels\<close>


lemma iplAuctionSummary_checks:
  "iplAuctionSummary team players =
     (if auctionChecks team players
      then (case mapE (\<lambda>player. getProp player (str ''price'')) (elems players) of
              Inl e \<Rightarrow> Inl e
            | Inr prices \<Rightarrow>
                Inr (Some \<lparr> teamName = field team (str ''name''),
                            playerCount = length (elems players),
                            stats = auctionStats (numOf (field team (str ''purse''))) (elems players) \<rparr>))
      else Inr None)"
proof (cases "field team (str ''purse'')")
  case (JNum purse)
  show ?thesis
  proof (cases players)
    case (JArr ps)
    with JNum show ?thesis
      by (cases "ps = []")
        (simp_all add: iplAuctionSummary_def auctionChecks_def elems_def split: sum.splits)
  qed (simp_all add: iplAuctionSummary_def auctionChecks_def elems_def JNum)
qed (simp_all add: iplAuctionSummary_def auctionChecks_def)





lemmas pnr_ops =
  processRailwayPNR_def pnrRecord_def passenger_def isNaNStr_def isStrNumericLiteral_def
  isNonDecimalIntegerLiteral_def isStrUnsignedDecimalLiteral_def isExponentPartOpt_def
  isSignedInteger_def digits1_def isSign_def isDigit_def processPassenger_def currentUpper_def
  labelOf_def pnrStatus_def tally_def

lemmas auction_ops =
  iplAuctionSummary_def auctionStats_def isPlayer_def price_def teamRecord_def player_def
  numGt_def Let_def




text \<open>What each of the two validations lets through, as the code has it.\<close>

lemma iplAuctionSummary_null_iff:
  "iplAuctionSummary team players = Inr None \<longleftrightarrow> \<not> auctionChecks team players"
  by (simp add: iplAuctionSummary_checks split: sum.splits)

lemma processRailwayPNR_null_iff:
  "processRailwayPNR pnrData = Inr None \<longleftrightarrow> \<not> pnrChecks pnrData"
  by (auto simp: processRailwayPNR_checks pnrChecks_def split: sum.splits jsval.splits)

text \<open>
  Claim C2 at a team whose purse is \<open>NaN\<close>. \<open>typeof NaN\<close> is "number" and
  \<open>NaN <= 0\<close> is false, so the team passes the validation and the call returns a
  summary, where the claim and the source's documentation ask for \<open>null\<close>.
\<close>

theorem purse_nan_accepted:
  "iplAuctionSummary (teamRecord ''CSK'' (JNum NaN)) (JArr [player ''Dhoni'' ''wk'' (JNum (Fin 1200))])
     = Inr (Some \<lparr> teamName = JStr (str ''CSK''), playerCount = 1,
         stats = Some \<lparr> totalSpent = Fin 1200, remaining = NaN,
                        costliestPlayer = player ''Dhoni'' ''wk'' (JNum (Fin 1200)),
                        cheapestPlayer = player ''Dhoni'' ''wk'' (JNum (Fin 1200)),
                        averagePrice = Fin 1200, byRole = [(str ''wk'', Fin 1)],
                        isOverBudget = False \<rparr> \<rparr>)"
  by (simp add: auction_ops object_ops str_def floor_rat_numeral)

text \<open>
  Claim C5 at the PNR "12345.6789". It has ten characters and converts to a number, so
  \<open>isNaN\<close> is false and the record passes the validation although the PNR is not made
  of ten digits; the call returns a status with the PNR formatted as "123-45.-6789".
\<close>

theorem pnr_decimal_point_accepted:
  "processRailwayPNR (pnrRecord (str ''12345.6789'') [passenger (str ''Rahul'') (JStr (str ''B1''))])
     = Inr (Some \<lparr> pnrFormatted = str ''123-45.-6789'',
          passengers =
            [\<lparr> bookingStatus = JStr (str ''WL5''), currentStatus = JStr (str ''B1''),
                statusLabel = str ''CONFIRMED'', isConfirmed = True \<rparr>],
          summary = \<lparr> totalPassengers = 1, confirmed = 1, waiting = 0, cancelled = 0, rac = 0,
                      allConfirmed = True, anyWaiting = False \<rparr>,
          chartPrepared = True \<rparr>)"
  by (simp add: pnr_ops string_ops)

text \<open>The PNR of that record is not a string of digits, and the result is not the sentinel.\<close>

theorem pnr_decimal_point_not_rejected:
  "\<not> list_all isDigit (str ''12345.6789'')
   \<and> processRailwayPNR (pnrRecord (str ''12345.6789'') [passenger (str ''Rahul'') (JStr (str ''B1''))])
       \<noteq> Inr None"
proof -
  have "\<not> list_all isDigit (str ''12345.6789'')"
    by (simp add: isDigit_def str_def)
  with pnr_decimal_point_accepted show ?thesis
    by simp
qed

end
